theory Spec2Isabelle
  imports Main "HOL-Library.AList"
begin

section \<open>Go values used by named\_routes.go\<close>

text \<open>
  Go strings are byte sequences; a \<^typ>\<open>string\<close> is a list of bytes, so \<open>part[0:1]\<close>
  is \<open>take 1 part\<close> and \<open>part[1:]\<close> is \<open>drop 1 part\<close>.

  A \<open>map[string]string\<close> is a reference: copying a struct that holds one copies the
  reference, not the table. The tables therefore live in a heap, and the structs hold
  addresses. A table is an association list; the order of the list is not observable
  except through \<open>range\<close>, whose starting point the Go runtime chooses at random.
\<close>

type_synonym addr = nat
type_synonym gomap = "(string \<times> string) list"

record heap =
  cells :: "addr \<Rightarrow> gomap"
  next_free :: addr

definition empty_heap :: heap where
  "empty_heap = \<lparr>cells = (\<lambda>_. []), next_free = 0\<rparr>"

text \<open>\<open>make(map[string]string)\<close>: a fresh, empty table.\<close>

definition make_map :: "heap \<Rightarrow> addr \<times> heap" where
  "make_map h =
     (next_free h, h\<lparr>cells := (cells h)(next_free h := []), next_free := Suc (next_free h)\<rparr>)"

text \<open>\<open>m[k]\<close>: the zero value \<open>""\<close> when the key is absent.\<close>

definition map_index :: "gomap \<Rightarrow> string \<Rightarrow> string" where
  "map_index m k = (case map_of m k of None \<Rightarrow> [] | Some v \<Rightarrow> v)"

text \<open>\<open>v, ok := m[k]\<close>.\<close>

definition map_lookup :: "gomap \<Rightarrow> string \<Rightarrow> string \<times> bool" where
  "map_lookup m k = (case map_of m k of None \<Rightarrow> ([], False) | Some v \<Rightarrow> (v, True))"

text \<open>\<open>m[k] = v\<close>, \<open>delete(m, k)\<close> and \<open>len(m)\<close>.\<close>

definition map_store :: "gomap \<Rightarrow> string \<Rightarrow> string \<Rightarrow> gomap" where
  "map_store m k v = AList.update k v m"

definition map_delete :: "gomap \<Rightarrow> string \<Rightarrow> gomap" where
  "map_delete m k = AList.delete k m"

definition map_len :: "gomap \<Rightarrow> nat" where
  "map_len m = length m"

text \<open>
  The key that the first iteration of \<open>for key := range m\<close> produces on a non-empty table.
  The runtime starts the iteration at a random entry; \<open>rnd\<close> is that choice.
\<close>

definition range_first :: "nat \<Rightarrow> gomap \<Rightarrow> string" where
  "range_first rnd m = fst (m ! (rnd mod length m))"

text \<open>\<open>strings.Split(s, sep)\<close> for a one-byte separator: never empty, \<open>[""]\<close> on \<open>""\<close>.\<close>

fun Split :: "string \<Rightarrow> char \<Rightarrow> string list" where
  "Split [] sep = [ [] ]"
| "Split (c # cs) sep =
     (if c = sep then [] # Split cs sep
      else (case Split cs sep of
              [] \<Rightarrow> [ [c] ]
            | p # ps \<Rightarrow> (c # p) # ps))"

text \<open>\<open>strings.Join(elems, sep)\<close>.\<close>

fun Join :: "string list \<Rightarrow> string \<Rightarrow> string" where
  "Join [] sep = []"
| "Join [x] sep = x"
| "Join (x # y # ys) sep = x @ sep @ Join (y # ys) sep"

section \<open>The structs\<close>

text \<open>
  The embedded \<open>*gin.Engine\<close> and \<open>*gin.RouterGroup\<close> belong to the routing framework and
  are left out: the registration calls forwarded to them do not touch the name table.
  A \<open>*NamedRouter\<close> is only ever read through its \<open>names\<close> field, which is never
  reassigned, so the pointer is modelled by the struct itself; sharing goes through the
  address of the table.
\<close>

record NamedRouter =
  names :: addr

record NamedRoute =
  name :: string
  route :: string
  parameters :: addr

record NamedGroup =
  namedRouter :: NamedRouter
  basePath :: string

datatype error =
    NoRouteDefinedError string
  | UnknownRouteParameter string
  | RouteParameterNotSet string

section \<open>Construction, groups and registration\<close>

definition New :: "heap \<Rightarrow> NamedRouter \<times> heap" where
  "New h = (case make_map h of (a, h') \<Rightarrow> (\<lparr>names = a\<rparr>, h'))"

definition Router_NamedGroup :: "NamedRouter \<Rightarrow> string \<Rightarrow> NamedGroup" where
  "Router_NamedGroup nr path = \<lparr>namedRouter = nr, basePath = path\<rparr>"

definition Group_NamedGroup :: "NamedGroup \<Rightarrow> string \<Rightarrow> NamedGroup" where
  "Group_NamedGroup ng path =
     \<lparr>namedRouter = namedRouter ng, basePath = basePath ng @ ''/'' @ path\<rparr>"

text \<open>\<open>nr.names[name] = relativePath\<close>, the effect shared by the seven router methods.\<close>

definition Router_register :: "NamedRouter \<Rightarrow> string \<Rightarrow> string \<Rightarrow> heap \<Rightarrow> heap" where
  "Router_register nr nm relativePath h =
     h\<lparr>cells := (cells h)(names nr := map_store (cells h (names nr)) nm relativePath)\<rparr>"

definition Router_Post :: "NamedRouter \<Rightarrow> string \<Rightarrow> string \<Rightarrow> heap \<Rightarrow> heap" where
  "Router_Post = Router_register"
definition Router_Get :: "NamedRouter \<Rightarrow> string \<Rightarrow> string \<Rightarrow> heap \<Rightarrow> heap" where
  "Router_Get = Router_register"
definition Router_Delete :: "NamedRouter \<Rightarrow> string \<Rightarrow> string \<Rightarrow> heap \<Rightarrow> heap" where
  "Router_Delete = Router_register"
definition Router_Patch :: "NamedRouter \<Rightarrow> string \<Rightarrow> string \<Rightarrow> heap \<Rightarrow> heap" where
  "Router_Patch = Router_register"
definition Router_Put :: "NamedRouter \<Rightarrow> string \<Rightarrow> string \<Rightarrow> heap \<Rightarrow> heap" where
  "Router_Put = Router_register"
definition Router_Options :: "NamedRouter \<Rightarrow> string \<Rightarrow> string \<Rightarrow> heap \<Rightarrow> heap" where
  "Router_Options = Router_register"
definition Router_Head :: "NamedRouter \<Rightarrow> string \<Rightarrow> string \<Rightarrow> heap \<Rightarrow> heap" where
  "Router_Head = Router_register"

text \<open>
  \<open>ng.namedRouter.names[name] = ng.basePath + relativePath\<close>, the effect shared by the
  seven group methods.
\<close>

definition Group_register :: "NamedGroup \<Rightarrow> string \<Rightarrow> string \<Rightarrow> heap \<Rightarrow> heap" where
  "Group_register ng nm relativePath h =
     h\<lparr>cells := (cells h)(names (namedRouter ng) :=
          map_store (cells h (names (namedRouter ng))) nm (basePath ng @ relativePath))\<rparr>"

definition Group_Post :: "NamedGroup \<Rightarrow> string \<Rightarrow> string \<Rightarrow> heap \<Rightarrow> heap" where
  "Group_Post = Group_register"
definition Group_Get :: "NamedGroup \<Rightarrow> string \<Rightarrow> string \<Rightarrow> heap \<Rightarrow> heap" where
  "Group_Get = Group_register"
definition Group_Delete :: "NamedGroup \<Rightarrow> string \<Rightarrow> string \<Rightarrow> heap \<Rightarrow> heap" where
  "Group_Delete = Group_register"
definition Group_Patch :: "NamedGroup \<Rightarrow> string \<Rightarrow> string \<Rightarrow> heap \<Rightarrow> heap" where
  "Group_Patch = Group_register"
definition Group_Put :: "NamedGroup \<Rightarrow> string \<Rightarrow> string \<Rightarrow> heap \<Rightarrow> heap" where
  "Group_Put = Group_register"
definition Group_Options :: "NamedGroup \<Rightarrow> string \<Rightarrow> string \<Rightarrow> heap \<Rightarrow> heap" where
  "Group_Options = Group_register"
definition Group_Head :: "NamedGroup \<Rightarrow> string \<Rightarrow> string \<Rightarrow> heap \<Rightarrow> heap" where
  "Group_Head = Group_register"

section \<open>Reverse, With and Path\<close>

text \<open>
  The fields of the composite literal are evaluated in order: the template is read from
  the name table, then the parameter table is allocated.
\<close>

definition Reverse :: "NamedRouter \<Rightarrow> string \<Rightarrow> heap \<Rightarrow> NamedRoute \<times> heap" where
  "Reverse nr nm h =
     (let r = map_index (cells h (names nr)) nm
      in case make_map h of
           (a, h') \<Rightarrow> (\<lparr>name = nm, route = r, parameters = a\<rparr>, h'))"

text \<open>
  The receiver is a copy of the struct, but the copy holds the same table: the store goes
  to the heap, and the struct is returned as it came.
\<close>

definition With :: "NamedRoute \<Rightarrow> string \<Rightarrow> string \<Rightarrow> heap \<Rightarrow> NamedRoute \<times> heap" where
  "With nr key val h =
     (nr, h\<lparr>cells := (cells h)(parameters nr := map_store (cells h (parameters nr)) key val)\<rparr>)"

text \<open>
  The loop of \<open>Path\<close> over \<open>parts\<close>, from index \<open>i\<close>. Its state is the parameter table
  (entries are deleted as they are used) and the builder \<open>url\<close>. The result is the error
  of an early return, if any, with the builder and the table as they are then.
\<close>

fun Path_loop ::
  "string list \<Rightarrow> nat \<Rightarrow> nat \<Rightarrow> gomap \<Rightarrow> string \<Rightarrow> error option \<times> string \<times> gomap" where
  "Path_loop [] i lastPartIndex ps url = (None, url, ps)"
| "Path_loop (part # rest) i lastPartIndex ps url =
     (if part = [] then Path_loop rest (Suc i) lastPartIndex ps url
      else if take 1 part = '':'' \<or> take 1 part = ''*'' then
        (let param = drop 1 part in
         case map_lookup ps param of
           (val, exists) \<Rightarrow>
             if \<not> exists then (Some (RouteParameterNotSet param), url, ps)
             else Path_loop rest (Suc i) lastPartIndex (map_delete ps param)
                    (if i < lastPartIndex then (url @ val) @ ''/'' else url @ val))
      else Path_loop rest (Suc i) lastPartIndex ps
             (if i < lastPartIndex then (url @ part) @ ''/'' else url @ part))"

text \<open>
  \<open>Path\<close> returns the pair \<open>(string, error)\<close> of the source, \<open>None\<close> for \<open>nil\<close>, and the
  heap it leaves. \<open>rnd\<close> is the runtime's choice of where \<open>range\<close> starts.
\<close>

definition Path :: "nat \<Rightarrow> NamedRoute \<Rightarrow> heap \<Rightarrow> (string \<times> error option) \<times> heap" where
  "Path rnd nr h =
     (if route nr = [] then (([], Some (NoRouteDefinedError (name nr))), h)
      else
        (let parts = Split (route nr) CHR ''/'';
             lastPartIndex = length parts - 1
         in case Path_loop parts 0 lastPartIndex (cells h (parameters nr)) ''/'' of
              (Some e, url, ps) \<Rightarrow> (([], Some e), h\<lparr>cells := (cells h)(parameters nr := ps)\<rparr>)
            | (None, url, ps) \<Rightarrow>
                (if map_len ps > 0
                 then ([], Some (UnknownRouteParameter (range_first rnd ps)))
                 else (url, None),
                 h\<lparr>cells := (cells h)(parameters nr := ps)\<rparr>)))"

section \<open>Vocabulary of the specification\<close>

text \<open>
  A placeholder segment is a non-empty segment whose first byte is \<open>:\<close> or \<open>*\<close>; its
  parameter name is the rest of the segment.
\<close>

definition is_param :: "string \<Rightarrow> bool" where
  "is_param part = (part \<noteq> [] \<and> (take 1 part = '':'' \<or> take 1 part = ''*''))"

definition param_names :: "string list \<Rightarrow> string list" where
  "param_names parts = map (drop 1) (filter is_param parts)"

text \<open>The placeholder names of a template, in segment order.\<close>

definition placeholders :: "string \<Rightarrow> string list" where
  "placeholders t = param_names (Split t CHR ''/'')"

definition keys :: "gomap \<Rightarrow> string set" where
  "keys ps = fst ` set ps"

text \<open>The bindings \<open>ps\<close> without those of the names \<open>ns\<close>.\<close>

definition consume :: "string list \<Rightarrow> gomap \<Rightarrow> gomap" where
  "consume ns ps = filter (\<lambda>kv. fst kv \<notin> set ns) ps"

text \<open>
  Of the placeholder names \<open>ns\<close>, in order: the first one with no binding in \<open>ps\<close>, and
  the names before it.
\<close>

definition first_unbound :: "gomap \<Rightarrow> string list \<Rightarrow> string option" where
  "first_unbound ps ns = find (\<lambda>p. p \<notin> keys ps) ns"

definition bound_prefix :: "gomap \<Rightarrow> string list \<Rightarrow> string list" where
  "bound_prefix ps ns = takeWhile (\<lambda>p. p \<in> keys ps) ns"

text \<open>What a segment stands for: the bound value of a placeholder, a literal as it is.\<close>

definition subst :: "gomap \<Rightarrow> string \<Rightarrow> string" where
  "subst ps part = (if is_param part then map_index ps (drop 1 part) else part)"

text \<open>
  The joiner of section 4.2: an empty segment contributes nothing; any other segment
  contributes what it stands for, followed by a \<open>/\<close> unless it is the final segment
  (index \<open>l\<close>).
\<close>

fun render :: "gomap \<Rightarrow> nat \<Rightarrow> nat \<Rightarrow> string list \<Rightarrow> string" where
  "render ps i l [] = []"
| "render ps i l (part # rest) =
     (if part = [] then [] else subst ps part @ (if i < l then ''/'' else []))
     @ render ps (Suc i) l rest"

definition rendered :: "gomap \<Rightarrow> string \<Rightarrow> string" where
  "rendered ps t =
     ''/'' @ render ps 0 (length (Split t CHR ''/'') - 1) (Split t CHR ''/'')"

text \<open>The template with each placeholder segment replaced by its bound value.\<close>

definition substitute :: "gomap \<Rightarrow> string \<Rightarrow> string" where
  "substitute ps t = Join (map (subst ps) (Split t CHR ''/'')) ''/''"

text \<open>Two adjacent slashes somewhere in a string.\<close>

fun has_dslash :: "string \<Rightarrow> bool" where
  "has_dslash (a # b # cs) = ((a = CHR ''/'' \<and> b = CHR ''/'') \<or> has_dslash (b # cs))"
| "has_dslash cs = False"

text \<open>A template that begins with a slash and has no doubled slash.\<close>

definition slash_normal :: "string \<Rightarrow> bool" where
  "slash_normal t = (take 1 t = ''/'' \<and> \<not> has_dslash t)"

text \<open>
  A bound value that cannot put two slashes side by side: non-empty, no slash at either
  end, no doubled slash inside.
\<close>

definition clean :: "string \<Rightarrow> bool" where
  "clean v = (v \<noteq> [] \<and> hd v \<noteq> CHR ''/'' \<and> last v \<noteq> CHR ''/'' \<and> \<not> has_dslash v)"

text \<open>A group reached from the router through the prefix \<open>p\<close> and then the prefixes \<open>qs\<close>.\<close>

definition nested_group :: "NamedRouter \<Rightarrow> string \<Rightarrow> string list \<Rightarrow> NamedGroup" where
  "nested_group r p qs = foldl Group_NamedGroup (Router_NamedGroup r p) qs"

text \<open>A heap that holds the given tables at the addresses \<open>0, 1, \<dots>\<close>.\<close>

definition heap_of :: "gomap list \<Rightarrow> heap" where
  "heap_of ms = \<lparr>cells = (\<lambda>a. if a < length ms then ms ! a else []), next_free = length ms\<rparr>"

section \<open>The example and the test of the repository\<close>

text \<open>
  \<open>router.Reverse(name).With(k1, v1)\<dots>With(kn, vn).Path()\<close>, the call chain of the
  example and of the test.
\<close>

definition Reverse_With_Path ::
  "nat \<Rightarrow> NamedRouter \<Rightarrow> string \<Rightarrow> (string \<times> string) list \<Rightarrow> heap \<Rightarrow> string \<times> error option" where
  "Reverse_With_Path rnd router nm params h =
     (case Reverse router nm h of
        (rt, h') \<Rightarrow> fst (Path rnd rt (foldl (\<lambda>h (k, v). snd (With rt k v h)) h' params)))"

text \<open>The router and the registrations of \<open>Example\<close>.\<close>

definition Example_router :: NamedRouter where
  "Example_router = fst (New empty_heap)"

definition Example_heap :: heap where
  "Example_heap =
     Group_Post (Group_NamedGroup (Router_NamedGroup Example_router ''/api'') ''v1'')
       ''v1-submit'' ''/submit''
       (Group_Get (Router_NamedGroup Example_router ''/api'') ''api-info'' ''/info''
          (Router_Get Example_router ''user'' ''/user/:id''
             (Router_Get Example_router ''root'' ''/'' (snd (New empty_heap)))))"

text \<open>
  The body of a case of \<open>TestNamedRoute_Path\<close>: a new router, the routes registered with
  \<open>Get\<close>, then the call chain on the route name and the parameters of the case.
\<close>

definition test_routes :: "(string \<times> string) list" where
  "test_routes =
     [(''root'', ''/''), (''index'', ''/index''), (''about'', ''/about/us''),
      (''user'', ''/user/:id''), (''user-item'', ''/user/:id/item/:item''),
      (''item-splat'', ''/item/*splat'')]"

definition run_test ::
  "nat \<Rightarrow> (string \<times> string) list \<Rightarrow> string \<Rightarrow> (string \<times> string) list \<Rightarrow> string \<times> error option" where
  "run_test rnd routes routeName params =
     (case New empty_heap of
        (router, h) \<Rightarrow>
          Reverse_With_Path rnd router routeName params
            (foldl (\<lambda>h (n, r). Router_Get router n r h) h routes))"

section \<open>Tables\<close>

text \<open>
  A table built by \<open>make\<close>, stores and deletes has each key once. The operations keep
  that, and none of the results below depends on it: a list with a repeated key behaves
  as the map that \<^const>\<open>map_of\<close> reads from it.
\<close>

lemma map_store_distinct: "distinct (map fst m) \<Longrightarrow> distinct (map fst (map_store m k v))"
  by (simp add: map_store_def distinct_update)

lemma map_delete_distinct: "distinct (map fst m) \<Longrightarrow> distinct (map fst (map_delete m k))"
  by (simp add: map_delete_def distinct_delete)

lemma map_len_positive: "0 < map_len m \<longleftrightarrow> dom (map_of m) \<noteq> {}"
  by (cases m) (auto simp: map_len_def)

section \<open>The loop of Path\<close>

lemma param_names_Nil [simp]: "param_names [] = []"
  by (simp add: param_names_def)

lemma param_names_Cons:
  "param_names (part # rest) =
     (if is_param part then drop 1 part # param_names rest else param_names rest)"
  by (simp add: param_names_def)

lemma map_lookup_in: "k \<in> keys ps \<Longrightarrow> map_lookup ps k = (map_index ps k, True)"
  by (auto simp: keys_def map_lookup_def map_index_def map_of_eq_None_iff split: option.splits)

lemma map_lookup_out: "k \<notin> keys ps \<Longrightarrow> map_lookup ps k = ([], False)"
  by (auto simp: keys_def map_lookup_def map_of_eq_None_iff split: option.splits)

lemma map_delete_consume: "map_delete ps k = consume [k] ps"
  by (induction ps) (auto simp: map_delete_def consume_def)

lemma consume_Nil [simp]: "consume [] ps = ps"
  by (simp add: consume_def)

lemma consume_consume: "consume ns (consume [k] ps) = consume (k # ns) ps"
  by (induction ps) (auto simp: consume_def)

lemma keys_consume: "keys (consume ns ps) = keys ps - set ns"
  by (induction ps) (auto simp: consume_def keys_def)

lemma map_index_consume: "q \<notin> set ns \<Longrightarrow> map_index (consume ns ps) q = map_index ps q"
  by (induction ps) (auto simp: consume_def map_index_def)

lemma render_consume:
  "set (param_names xs) \<inter> set ns = {} \<Longrightarrow> render (consume ns ps) i l xs = render ps i l xs"
  by (induction xs arbitrary: i)
     (auto simp: param_names_Cons subst_def map_index_consume split: if_splits)

lemma Path_loop_ok:
  "distinct (param_names xs) \<Longrightarrow> set (param_names xs) \<subseteq> keys ps \<Longrightarrow>
   Path_loop xs i l ps url = (None, url @ render ps i l xs, consume (param_names xs) ps)"
proof (induction xs arbitrary: i ps url)
  case Nil
  then show ?case by simp
next
  case (Cons part rest)
  show ?case
  proof (cases "is_param part")
    case False
    with Cons.prems have "distinct (param_names rest)" "set (param_names rest) \<subseteq> keys ps"
      by (simp_all add: param_names_Cons)
    from Cons.IH [OF this] False show ?thesis
      by (auto simp: param_names_Cons is_param_def subst_def)
  next
    case True
    let ?p = "drop 1 part"
    from True Cons.prems have p: "?p \<in> keys ps" "?p \<notin> set (param_names rest)"
      and d: "distinct (param_names rest)" and s: "set (param_names rest) \<subseteq> keys ps"
      by (simp_all add: param_names_Cons)
    from p s have s': "set (param_names rest) \<subseteq> keys (consume [?p] ps)"
      by (auto simp: keys_consume)
    have r: "render (consume [?p] ps) (Suc i) l rest = render ps (Suc i) l rest"
      using p by (intro render_consume) auto
    from True have ne: "part \<noteq> []" and tk: "take 1 part = '':'' \<or> take 1 part = ''*''"
      by (simp_all add: is_param_def)
    show ?thesis
      using Cons.IH [OF d s', of "Suc i"] True ne tk p r
      by (simp add: Let_def param_names_Cons map_lookup_in map_delete_consume consume_consume subst_def)
  qed
qed

lemma Path_loop_fail:
  "param_names xs = pre @ p # post \<Longrightarrow> distinct pre \<Longrightarrow> set pre \<subseteq> keys ps \<Longrightarrow>
   p \<notin> keys ps \<or> p \<in> set pre \<Longrightarrow>
   \<exists>url'. Path_loop xs i l ps url = (Some (RouteParameterNotSet p), url', consume pre ps)"
proof (induction xs arbitrary: i ps url pre)
  case Nil
  then show ?case by simp
next
  case (Cons part rest)
  show ?case
  proof (cases "is_param part")
    case False
    with Cons.prems(1) have "param_names rest = pre @ p # post"
      by (simp add: param_names_Cons)
    from Cons.IH [OF this Cons.prems(2,3,4)] False show ?thesis
      by (auto simp: is_param_def)
  next
    case True
    from True have ne: "part \<noteq> []" and tk: "take 1 part = '':'' \<or> take 1 part = ''*''"
      by (simp_all add: is_param_def)
    let ?q = "drop 1 part"
    from True Cons.prems(1) have eq: "?q # param_names rest = pre @ p # post"
      by (simp add: param_names_Cons)
    show ?thesis
    proof (cases pre)
      case Nil
      with eq Cons.prems(4) have "?q = p" "p \<notin> keys ps" by simp_all
      with ne tk Nil show ?thesis
        by (simp add: map_lookup_out)
    next
      case (Cons q pre')
      with eq have q: "q = ?q" and rest: "param_names rest = pre' @ p # post" by simp_all
      from Cons Cons.prems q have qk: "?q \<in> keys ps" and d: "distinct pre'" and qn: "?q \<notin> set pre'"
        by auto
      from Cons Cons.prems(3) qn q have s: "set pre' \<subseteq> keys (consume [?q] ps)"
        by (auto simp: keys_consume)
      from Cons Cons.prems(4) q have c: "p \<notin> keys (consume [?q] ps) \<or> p \<in> set pre'"
        by (auto simp: keys_consume)
      from Cons.IH [OF rest d s c, of "Suc i"] ne tk qk Cons q show ?thesis
        by (simp add: Let_def map_lookup_in map_delete_consume consume_consume)
    qed
  qed
qed

lemma Path_loop_unmet:
  "(\<exists>p \<in> set (param_names xs). p \<notin> keys ps) \<or> \<not> distinct (param_names xs) \<Longrightarrow>
   \<exists>q url' ps'. Path_loop xs i l ps url = (Some (RouteParameterNotSet q), url', ps')"
proof (induction xs arbitrary: i ps url)
  case Nil
  then show ?case by simp
next
  case (Cons part rest)
  show ?case
  proof (cases "is_param part")
    case False
    with Cons.prems have "(\<exists>p \<in> set (param_names rest). p \<notin> keys ps) \<or> \<not> distinct (param_names rest)"
      by (simp add: param_names_Cons)
    from Cons.IH [OF this] False show ?thesis
      by (auto simp: is_param_def)
  next
    case True
    from True have ne: "part \<noteq> []" and tk: "take 1 part = '':'' \<or> take 1 part = ''*''"
      by (simp_all add: is_param_def)
    let ?q = "drop 1 part"
    show ?thesis
    proof (cases "?q \<in> keys ps")
      case False
      with ne tk show ?thesis by (simp add: map_lookup_out)
    next
      case qk: True
      from Cons.prems True qk
      have "(\<exists>p \<in> set (param_names rest). p \<notin> keys (consume [?q] ps)) \<or> \<not> distinct (param_names rest)"
        by (auto simp: param_names_Cons keys_consume)
      from Cons.IH [OF this, of "Suc i"] ne tk qk show ?thesis
        by (simp add: Let_def map_lookup_in map_delete_consume)
    qed
  qed
qed

section \<open>Splitting, joining and the joiner\<close>

lemma Split_nonempty [simp]: "Split s c \<noteq> []"
  by (induction s) (auto split: list.splits)

text \<open>
  The recursive equation with head and tail is the convenient one for the proofs of this
  section; the defining equation, which looks at the recursive result once, is the one
  to evaluate with.
\<close>

lemma Split_Cons:
  "Split (a # s) c =
     (if a = c then [] # Split s c else (a # hd (Split s c)) # tl (Split s c))"
  by (cases "Split s c") simp_all

declare Split.simps(2) [simp del]
declare Split_Cons [simp]

lemma Split_sep: "Split (c # cs) c = [] # Split cs c"
  by simp

lemma Split_no_sep: "part \<in> set (Split s c) \<Longrightarrow> c \<notin> set part"
proof (induction s arbitrary: part)
  case Nil
  then show ?case by simp
next
  case (Cons a s)
  have ht: "Split s c = hd (Split s c) # tl (Split s c)" by simp
  have h: "c \<notin> set (hd (Split s c))"
    by (rule Cons.IH) (simp add: hd_in_set)
  have t: "\<And>x. x \<in> set (tl (Split s c)) \<Longrightarrow> c \<notin> set x"
    by (rule Cons.IH) (metis list.set_sel(2) Split_nonempty)
  show ?case
  proof (cases "a = c")
    case True
    with Cons show ?thesis by auto
  next
    case False
    with Cons.prems have "part = a # hd (Split s c) \<or> part \<in> set (tl (Split s c))" by simp
    with False h t show ?thesis by auto
  qed
qed

lemma Join_Cons_char: "Join ((a # x) # xs) sep = a # Join (x # xs) sep"
  by (cases xs) simp_all

lemma Join_Nil_Cons: "xs \<noteq> [] \<Longrightarrow> Join ([] # xs) sep = sep @ Join xs sep"
  by (cases xs) simp_all

lemma Join_Split: "Join (Split s c) [c] = s"
proof (induction s)
  case Nil
  then show ?case by simp
next
  case (Cons a s)
  have ht: "hd (Split s c) # tl (Split s c) = Split s c" by simp
  show ?case
  proof (cases "a = c")
    case True
    with Cons show ?thesis by (simp add: Join_Nil_Cons)
  next
    case False
    with Cons ht show ?thesis by (simp add: Join_Cons_char)
  qed
qed

lemma hd_Split_Nil: "hd (Split s c) = [] \<longleftrightarrow> s = [] \<or> hd s = c"
  by (cases s) auto

lemma inner_segments:
  "\<not> has_dslash s \<Longrightarrow> x \<in> set (butlast (tl (Split s CHR ''/''))) \<Longrightarrow> x \<noteq> []"
proof (induction s arbitrary: x)
  case Nil
  then show ?case by simp
next
  case (Cons a s)
  from Cons.prems(1) have nd: "\<not> has_dslash s" by (cases s) auto
  obtain y ys where yys: "Split s CHR ''/'' = y # ys"
    by (cases "Split s CHR ''/''") simp_all
  show ?case
  proof (cases "a = CHR ''/''")
    case False
    with Cons.prems(2) Cons.IH [OF nd] show ?thesis by simp
  next
    case True
    with Cons.prems(2) yys have x: "ys \<noteq> []" "x = y \<or> x \<in> set (butlast ys)"
      by (auto split: if_splits)
    from x(1) yys have "s \<noteq> []" by auto
    moreover from Cons.prems(1) True have "s \<noteq> [] \<Longrightarrow> hd s \<noteq> CHR ''/''" by (cases s) auto
    ultimately have "hd (Split s CHR ''/'') \<noteq> []" by (simp add: hd_Split_Nil)
    with yys have "y \<noteq> []" by simp
    moreover have "x \<in> set (butlast ys) \<Longrightarrow> x \<noteq> []"
      using Cons.IH [OF nd, of x] yys by simp
    ultimately show ?thesis using x(2) by auto
  qed
qed

declare Split_Cons [simp del]
declare Split.simps(2) [simp]

lemma subst_Nil [simp]: "subst ps [] = []"
  by (simp add: subst_def is_param_def)

lemma render_Join:
  "\<forall>x \<in> set (butlast segs). x \<noteq> [] \<Longrightarrow> segs \<noteq> [] \<Longrightarrow> i + length segs = Suc l \<Longrightarrow>
   render ps i l segs = Join (map (subst ps) segs) ''/''"
proof (induction segs arbitrary: i)
  case Nil
  then show ?case by simp
next
  case (Cons s segs)
  show ?case
  proof (cases segs)
    case Nil
    with Cons.prems show ?thesis by simp
  next
    case (Cons s' segs')
    with Cons.prems have "s \<noteq> []" "i < l" "\<forall>x \<in> set (butlast segs). x \<noteq> []"
      "segs \<noteq> []" "Suc i + length segs = Suc l"
      by auto
    with Cons.IH [of "Suc i"] Cons show ?thesis by simp
  qed
qed

lemma rendered_substitute:
  assumes "slash_normal t"
  shows "rendered ps t = substitute ps t"
proof -
  from assms obtain s where t: "t = CHR ''/'' # s" and nd: "\<not> has_dslash t"
    by (cases t) (auto simp: slash_normal_def)
  let ?segs = "Split s CHR ''/''"
  have parts: "Split t CHR ''/'' = [] # ?segs" by (simp add: t)
  have inner: "\<forall>x \<in> set (butlast ?segs). x \<noteq> []"
    using inner_segments [OF nd] by (simp add: t)
  have "render ps (Suc 0) (length ?segs) ?segs = Join (map (subst ps) ?segs) ''/''"
    by (rule render_Join [OF inner]) simp_all
  then show ?thesis
    by (simp add: rendered_def substitute_def parts Join_Nil_Cons)
qed

section \<open>The outcomes of Path\<close>

lemma keys_empty_iff: "keys ps = {} \<longleftrightarrow> ps = []"
  by (simp add: keys_def)

lemma heap_cells_triv: "h\<lparr>cells := (cells h)(a := cells h a)\<rparr> = h"
  by simp

lemma placeholders_route_nonempty: "placeholders t \<noteq> [] \<Longrightarrow> t \<noteq> []"
  by (auto simp: placeholders_def param_names_def is_param_def)

text \<open>The three outcomes of \<open>Path\<close> on a non-empty template.\<close>

lemma Path_success:
  assumes "route nr \<noteq> []" "distinct (placeholders (route nr))"
    and "keys (cells h (parameters nr)) = set (placeholders (route nr))"
  shows "Path rnd nr h =
           ((rendered (cells h (parameters nr)) (route nr), None),
            h\<lparr>cells := (cells h)(parameters nr := [])\<rparr>)"
proof -
  let ?ps = "cells h (parameters nr)" and ?parts = "Split (route nr) CHR ''/''"
  from assms(3) have "keys (consume (param_names ?parts) ?ps) = {}"
    by (simp add: keys_consume placeholders_def)
  then have c: "consume (param_names ?parts) ?ps = []"
    by (simp add: keys_empty_iff)
  from assms(2,3) have "Path_loop ?parts 0 (length ?parts - 1) ?ps ''/'' =
      (None, ''/'' @ render ?ps 0 (length ?parts - 1) ?parts, consume (param_names ?parts) ?ps)"
    by (intro Path_loop_ok) (simp_all add: placeholders_def)
  with c assms(1) show ?thesis
    by (simp add: Path_def Let_def rendered_def map_len_def)
qed

lemma range_first_in: "m \<noteq> [] \<Longrightarrow> range_first rnd m \<in> keys m"
  by (simp add: range_first_def keys_def)

lemma Path_unknown:
  assumes "route nr \<noteq> []" "distinct (placeholders (route nr))"
    and "set (placeholders (route nr)) \<subseteq> keys (cells h (parameters nr))"
    and "\<not> keys (cells h (parameters nr)) \<subseteq> set (placeholders (route nr))"
  shows "Path rnd nr h =
           (([], Some (UnknownRouteParameter
                  (range_first rnd (consume (placeholders (route nr)) (cells h (parameters nr)))))),
            h\<lparr>cells := (cells h)(parameters nr :=
                 consume (placeholders (route nr)) (cells h (parameters nr)))\<rparr>)"
proof -
  let ?ps = "cells h (parameters nr)" and ?parts = "Split (route nr) CHR ''/''"
  from assms(4) have "keys (consume (param_names ?parts) ?ps) \<noteq> {}"
    by (auto simp: keys_consume placeholders_def)
  then have c: "consume (param_names ?parts) ?ps \<noteq> []"
    by (simp add: keys_empty_iff)
  from assms(2,3) have "Path_loop ?parts 0 (length ?parts - 1) ?ps ''/'' =
      (None, ''/'' @ render ?ps 0 (length ?parts - 1) ?parts, consume (param_names ?parts) ?ps)"
    by (intro Path_loop_ok) (simp_all add: placeholders_def)
  with c assms(1) show ?thesis
    by (simp add: Path_def Let_def map_len_def placeholders_def)
qed

lemma Path_not_set:
  assumes "placeholders (route nr) = pre @ p # post" "distinct pre"
    and "set pre \<subseteq> keys (cells h (parameters nr))"
    and "p \<notin> keys (cells h (parameters nr)) \<or> p \<in> set pre"
  shows "Path rnd nr h =
           (([], Some (RouteParameterNotSet p)),
            h\<lparr>cells := (cells h)(parameters nr := consume pre (cells h (parameters nr)))\<rparr>)"
proof -
  let ?ps = "cells h (parameters nr)" and ?parts = "Split (route nr) CHR ''/''"
  from assms(1) have ne: "route nr \<noteq> []"
    by (intro placeholders_route_nonempty) simp
  from assms(1) have "param_names ?parts = pre @ p # post"
    by (simp add: placeholders_def)
  from Path_loop_fail [OF this assms(2,3,4), of 0 "length ?parts - 1" "''/''"]
  obtain url' where "Path_loop ?parts 0 (length ?parts - 1) ?ps ''/'' =
      (Some (RouteParameterNotSet p), url', consume pre ?ps)"
    by blast
  with ne show ?thesis
    by (simp add: Path_def Let_def)
qed

lemma Path_unmet:
  assumes "\<not> set (placeholders (route nr)) \<subseteq> keys (cells h (parameters nr))
           \<or> \<not> distinct (placeholders (route nr))"
  shows "\<exists>q. fst (Path rnd nr h) = ([], Some (RouteParameterNotSet q))"
proof -
  let ?ps = "cells h (parameters nr)" and ?parts = "Split (route nr) CHR ''/''"
  from assms have "placeholders (route nr) \<noteq> []" by auto
  then have ne: "route nr \<noteq> []" by (rule placeholders_route_nonempty)
  from assms have "(\<exists>p \<in> set (param_names ?parts). p \<notin> keys ?ps) \<or> \<not> distinct (param_names ?parts)"
    by (auto simp: placeholders_def)
  from Path_loop_unmet [OF this, of 0 "length ?parts - 1" "''/''"]
  obtain q url' ps' where "Path_loop ?parts 0 (length ?parts - 1) ?ps ''/'' =
      (Some (RouteParameterNotSet q), url', ps')"
    by blast
  with ne show ?thesis
    by (auto simp: Path_def Let_def)
qed

section \<open>The example and the test, evaluated\<close>

lemmas run_defs =
  Reverse_With_Path_def Example_router_def Example_heap_def test_routes_def run_test_def
  empty_heap_def make_map_def map_index_def map_lookup_def map_store_def map_delete_def
  map_len_def range_first_def New_def Router_NamedGroup_def Group_NamedGroup_def
  Router_register_def Group_register_def Router_Get_def Group_Get_def Group_Post_def
  Reverse_def With_def Path_def Let_def

text \<open>The four lines that \<open>Example\<close> prints.\<close>

lemma Example_output:
  "Reverse_With_Path rnd Example_router ''root'' [] Example_heap = (''/'', None)"
  "Reverse_With_Path rnd Example_router ''user'' [(''id'', ''3'')] Example_heap
     = (''/user/3'', None)"
  "Reverse_With_Path rnd Example_router ''api-info'' [] Example_heap = (''/api/info'', None)"
  "Reverse_With_Path rnd Example_router ''v1-submit'' [] Example_heap
     = (''/api/v1/submit'', None)"
  by (simp_all add: run_defs)

text \<open>The eight cases of \<open>TestNamedRoute_Path\<close> give what the test wants.\<close>

lemma TestNamedRoute_Path:
  "run_test rnd test_routes ''root'' [] = (''/'', None)"
  "run_test rnd test_routes ''about'' [] = (''/about/us'', None)"
  "run_test rnd test_routes ''user'' [(''id'', ''3'')] = (''/user/3'', None)"
  "run_test rnd test_routes ''user-item'' [(''id'', ''3''), (''item'', ''book'')]
     = (''/user/3/item/book'', None)"
  "run_test rnd test_routes ''item-splat'' [(''splat'', ''records/7'')]
     = (''/item/records/7'', None)"
  "run_test rnd test_routes ''unknown'' [] = ([], Some (NoRouteDefinedError ''unknown''))"
  "run_test rnd test_routes ''user'' [] = ([], Some (RouteParameterNotSet ''id''))"
  "run_test rnd test_routes ''user'' [(''id'', ''3''), (''item'', ''3'')]
     = ([], Some (UnknownRouteParameter ''item''))"
  by (simp_all add: run_defs)

section \<open>The claims\<close>

text \<open>The definitions unfolded when a concrete call is evaluated.\<close>

lemmas eval_defs =
  placeholders_def param_names_def is_param_def keys_def consume_def subst_def rendered_def
  first_unbound_def bound_prefix_def
  substitute_def slash_normal_def clean_def nested_group_def heap_of_def empty_heap_def
  make_map_def map_index_def map_lookup_def map_store_def map_delete_def map_len_def
  range_first_def New_def Router_NamedGroup_def Group_NamedGroup_def Router_register_def
  Group_register_def Reverse_def With_def Path_def Let_def

subsection \<open>C1: substitution of bound placeholders\<close>

text \<open>
  C1, as stated, says that \<open>Path\<close> returns the template with each placeholder segment
  replaced by its bound value whenever every placeholder segment has its own binding and
  nothing else is bound. The template \<open>/user//:id\<close> with \<open>id=3\<close> would then give
  \<open>/user//3\<close>; \<open>Path\<close> skips the empty segment and gives \<open>/user/3\<close>.
\<close>

theorem C1_counterexample:
  "distinct (placeholders ''/user//:id'') \<and>
   keys [(''id'', ''3'')] = set (placeholders ''/user//:id'') \<and>
   substitute [(''id'', ''3'')] ''/user//:id'' = ''/user//3'' \<and>
   fst (Path 0 \<lparr>name = ''user'', route = ''/user//:id'', parameters = 0\<rparr>
          (heap_of [ [(''id'', ''3'')] ])) = (''/user/3'', None) \<and>
   fst (Path 0 \<lparr>name = ''user'', route = ''/user//:id'', parameters = 0\<rparr>
          (heap_of [ [(''id'', ''3'')] ])) \<noteq> (substitute [(''id'', ''3'')] ''/user//:id'', None)"
  by (simp add: eval_defs)

text \<open>
  C1, amended. For every non-empty template whose placeholder segments carry pairwise
  distinct names, on a handle whose bindings are exactly those names, \<open>Path\<close> succeeds
  and returns a slash followed by the non-empty segments in order, each placeholder
  replaced verbatim by its bound value and each segment but the final one followed by a
  slash. When the template begins with a slash and has no doubled slash, that is the
  template with each placeholder segment replaced by its bound value.
\<close>

theorem C1_Path_substitutes:
  assumes "route nr \<noteq> []"
    and "distinct (placeholders (route nr))"
    and "keys (cells h (parameters nr)) = set (placeholders (route nr))"
  shows "fst (Path rnd nr h) = (rendered (cells h (parameters nr)) (route nr), None) \<and>
         (slash_normal (route nr) \<longrightarrow>
            rendered (cells h (parameters nr)) (route nr) =
            substitute (cells h (parameters nr)) (route nr))"
  using Path_success [OF assms] rendered_substitute by simp

text \<open>The instance \<open>/user/:id/item/:item\<close> with \<open>id=3\<close>, \<open>item=book\<close>.\<close>

theorem C1_witness:
  "route \<lparr>name = ''user-item'', route = ''/user/:id/item/:item'', parameters = 0\<rparr> \<noteq> [] \<and>
   distinct (placeholders ''/user/:id/item/:item'') \<and>
   keys [(''id'', ''3''), (''item'', ''book'')] = set (placeholders ''/user/:id/item/:item'') \<and>
   slash_normal ''/user/:id/item/:item'' \<and>
   substitute [(''id'', ''3''), (''item'', ''book'')] ''/user/:id/item/:item''
     = ''/user/3/item/book'' \<and>
   fst (Path 0 \<lparr>name = ''user-item'', route = ''/user/:id/item/:item'', parameters = 0\<rparr>
          (heap_of [ [(''id'', ''3''), (''item'', ''book'')] ])) = (''/user/3/item/book'', None)"
  using C1_Path_substitutes
    [of "\<lparr>name = ''user-item'', route = ''/user/:id/item/:item'', parameters = 0\<rparr>"
        "heap_of [ [(''id'', ''3''), (''item'', ''book'')] ]" 0]
  by (simp add: placeholders_def param_names_def is_param_def keys_def subst_def
      substitute_def slash_normal_def heap_of_def map_index_def)

text \<open>The other two instances of the claim, through \<open>Reverse\<close> and \<open>With\<close>.\<close>

lemma Path_user_example:
  "fst (Path 0 (fst (Reverse \<lparr>names = 0\<rparr> ''user'' (heap_of [ [(''user'', ''/user/:id'')] ])))
     (snd (With (fst (Reverse \<lparr>names = 0\<rparr> ''user'' (heap_of [ [(''user'', ''/user/:id'')] ])))
            ''id'' ''3''
            (snd (Reverse \<lparr>names = 0\<rparr> ''user'' (heap_of [ [(''user'', ''/user/:id'')] ]))))))
   = (''/user/3'', None)"
  by (simp add: eval_defs)

lemma Path_splat_example:
  "fst (Path 0 \<lparr>name = ''item-splat'', route = ''/item/*splat'', parameters = 0\<rparr>
          (heap_of [ [(''splat'', ''records/7'')] ])) = (''/item/records/7'', None)"
  by (simp add: eval_defs)

subsection \<open>C2: a placeholder with no binding\<close>

lemma first_unbound_split:
  "first_unbound ps ns = Some p \<Longrightarrow>
   p \<notin> keys ps \<and> (\<exists>post. ns = bound_prefix ps ns @ p # post)"
  by (induction ns) (auto simp: first_unbound_def bound_prefix_def split: if_splits)

lemma bound_prefix_keys: "set (bound_prefix ps ns) \<subseteq> keys ps"
  by (auto simp: bound_prefix_def dest: set_takeWhileD)

text \<open>
  C2, as stated, names the first placeholder segment, in template order, that has no
  binding in the handle. In \<open>/cmp/:id/:id/:mode\<close> with \<open>id=3\<close> that is \<open>mode\<close>; the
  first \<open>:id\<close> uses up the binding, and \<open>Path\<close> fails at the second \<open>:id\<close> with
  \<open>RouteParameterNotSet id\<close>.
\<close>

theorem C2_counterexample:
  "first_unbound [(''id'', ''3'')] (placeholders ''/cmp/:id/:id/:mode'') = Some ''mode'' \<and>
   fst (Path 0 \<lparr>name = ''cmp'', route = ''/cmp/:id/:id/:mode'', parameters = 0\<rparr>
          (heap_of [ [(''id'', ''3'')] ])) = ([], Some (RouteParameterNotSet ''id'')) \<and>
   fst (Path 0 \<lparr>name = ''cmp'', route = ''/cmp/:id/:id/:mode'', parameters = 0\<rparr>
          (heap_of [ [(''id'', ''3'')] ])) \<noteq> ([], Some (RouteParameterNotSet ''mode''))"
  by (simp add: eval_defs)

text \<open>
  C2, amended. For every handle whose template has a placeholder segment with no
  binding in the handle, where the placeholder segments before the first such segment
  carry pairwise distinct names, \<open>Path\<close> fails with \<open>RouteParameterNotSet\<close> carrying the
  name of that first segment and returns the empty string as the path. It stops there:
  of the handle's bindings, exactly those of the placeholders before that segment are
  consumed.
\<close>

theorem C2_Path_parameter_not_set:
  assumes "first_unbound (cells h (parameters nr)) (placeholders (route nr)) = Some p"
    and "distinct (bound_prefix (cells h (parameters nr)) (placeholders (route nr)))"
  shows "Path rnd nr h =
           (([], Some (RouteParameterNotSet p)),
            h\<lparr>cells := (cells h)(parameters nr :=
                 consume (bound_prefix (cells h (parameters nr)) (placeholders (route nr)))
                   (cells h (parameters nr)))\<rparr>)"
proof -
  from first_unbound_split [OF assms(1)] obtain post
    where p: "p \<notin> keys (cells h (parameters nr))"
      and ns: "placeholders (route nr) =
                 bound_prefix (cells h (parameters nr)) (placeholders (route nr)) @ p # post"
    by blast
  show ?thesis
    by (rule Path_not_set [OF ns assms(2) bound_prefix_keys]) (simp add: p)
qed

theorem C2_witness:
  "first_unbound [(''id'', ''3'')] (placeholders ''/user/:id/item/:item'') = Some ''item'' \<and>
   distinct (bound_prefix [(''id'', ''3'')] (placeholders ''/user/:id/item/:item'')) \<and>
   fst (Path 0 \<lparr>name = ''user-item'', route = ''/user/:id/item/:item'', parameters = 0\<rparr>
          (heap_of [ [(''id'', ''3'')] ])) = ([], Some (RouteParameterNotSet ''item'')) \<and>
   cells (snd (Path 0 \<lparr>name = ''user-item'', route = ''/user/:id/item/:item'', parameters = 0\<rparr>
          (heap_of [ [(''id'', ''3'')] ]))) 0 = []"
  using C2_Path_parameter_not_set
    [of "heap_of [ [(''id'', ''3'')] ]"
        "\<lparr>name = ''user-item'', route = ''/user/:id/item/:item'', parameters = 0\<rparr>"
        "''item''" 0]
  by (simp add: placeholders_def param_names_def is_param_def keys_def consume_def
      first_unbound_def bound_prefix_def heap_of_def)

subsection \<open>C3: a binding that no placeholder uses\<close>

lemma range_first_any: "k \<in> keys m \<Longrightarrow> \<exists>rnd. range_first rnd m = k"
proof -
  assume "k \<in> keys m"
  then obtain j where j: "j < length m" "fst (m ! j) = k"
    by (auto simp: keys_def in_set_conv_nth)
  then have "range_first j m = k" by (simp add: range_first_def)
  then show ?thesis ..
qed

text \<open>
  C3, as stated, promises \<open>UnknownRouteParameter\<close> whenever every placeholder of the
  template is bound and some binding matches no placeholder. In \<open>/pair/:id/:id\<close> with
  \<open>id=3\<close>, \<open>item=3\<close> the placeholder name \<open>id\<close> is bound and \<open>item\<close> matches nothing,
  but \<open>Path\<close> fails at the second \<open>:id\<close> with \<open>RouteParameterNotSet id\<close>.
\<close>

theorem C3_counterexample:
  "set (placeholders ''/pair/:id/:id'') \<subseteq> keys [(''id'', ''3''), (''item'', ''3'')] \<and>
   ''item'' \<in> keys [(''id'', ''3''), (''item'', ''3'')] \<and>
   ''item'' \<notin> set (placeholders ''/pair/:id/:id'') \<and>
   fst (Path 0 \<lparr>name = ''pair'', route = ''/pair/:id/:id'', parameters = 0\<rparr>
          (heap_of [ [(''id'', ''3''), (''item'', ''3'')] ]))
     = ([], Some (RouteParameterNotSet ''id''))"
  by (simp add: eval_defs)

text \<open>
  C3, amended. For every handle with a non-empty template whose placeholder segments
  carry pairwise distinct names, all bound, and whose bindings include a key that is no
  placeholder name, \<open>Path\<close> fails with \<open>UnknownRouteParameter\<close> carrying one of the
  unmatched keys and returns the empty string; which unmatched key is the runtime's
  choice, and each of them can be the one. The check comes after the walk: when some
  placeholder name is not bound, \<open>Path\<close> fails with \<open>RouteParameterNotSet\<close> whatever
  else is bound.
\<close>

theorem C3_Path_unknown_parameter:
  "(route nr \<noteq> [] \<and> distinct (placeholders (route nr)) \<and>
    set (placeholders (route nr)) \<subseteq> keys (cells h (parameters nr)) \<and>
    \<not> keys (cells h (parameters nr)) \<subseteq> set (placeholders (route nr)) \<longrightarrow>
      (\<exists>k. k \<in> keys (cells h (parameters nr)) \<and> k \<notin> set (placeholders (route nr)) \<and>
           fst (Path rnd nr h) = ([], Some (UnknownRouteParameter k))) \<and>
      (\<forall>k. k \<in> keys (cells h (parameters nr)) \<and> k \<notin> set (placeholders (route nr)) \<longrightarrow>
           (\<exists>rnd'. fst (Path rnd' nr h) = ([], Some (UnknownRouteParameter k))))) \<and>
   (\<not> set (placeholders (route nr)) \<subseteq> keys (cells h (parameters nr)) \<longrightarrow>
      (\<exists>q. fst (Path rnd nr h) = ([], Some (RouteParameterNotSet q))))"
proof (intro conjI impI allI)
  let ?ps = "cells h (parameters nr)" and ?ns = "placeholders (route nr)"
  assume a: "route nr \<noteq> [] \<and> distinct ?ns \<and> set ?ns \<subseteq> keys ?ps \<and> \<not> keys ?ps \<subseteq> set ?ns"
  then have P: "\<And>r. fst (Path r nr h) =
      ([], Some (UnknownRouteParameter (range_first r (consume ?ns ?ps))))"
    by (simp add: Path_unknown)
  from a have "consume ?ns ?ps \<noteq> []"
    by (auto simp: keys_consume simp flip: keys_empty_iff)
  then have "range_first rnd (consume ?ns ?ps) \<in> keys (consume ?ns ?ps)"
    by (rule range_first_in)
  then show "\<exists>k. k \<in> keys ?ps \<and> k \<notin> set ?ns \<and>
      fst (Path rnd nr h) = ([], Some (UnknownRouteParameter k))"
    using P by (auto simp: keys_consume)
  fix k
  assume "k \<in> keys ?ps \<and> k \<notin> set ?ns"
  then have "k \<in> keys (consume ?ns ?ps)" by (simp add: keys_consume)
  from range_first_any [OF this] obtain r where "range_first r (consume ?ns ?ps) = k" ..
  with P [of r] show "\<exists>rnd'. fst (Path rnd' nr h) = ([], Some (UnknownRouteParameter k))"
    by auto
next
  assume "\<not> set (placeholders (route nr)) \<subseteq> keys (cells h (parameters nr))"
  then show "\<exists>q. fst (Path rnd nr h) = ([], Some (RouteParameterNotSet q))"
    by (intro Path_unmet) simp
qed

theorem C3_witness:
  "route \<lparr>name = ''user'', route = ''/user/:id'', parameters = 0\<rparr> \<noteq> [] \<and>
   distinct (placeholders ''/user/:id'') \<and>
   set (placeholders ''/user/:id'') \<subseteq> keys [(''id'', ''3''), (''item'', ''3'')] \<and>
   \<not> keys [(''id'', ''3''), (''item'', ''3'')] \<subseteq> set (placeholders ''/user/:id'') \<and>
   fst (Path 0 \<lparr>name = ''user'', route = ''/user/:id'', parameters = 0\<rparr>
          (heap_of [ [(''id'', ''3''), (''item'', ''3'')] ]))
     = ([], Some (UnknownRouteParameter ''item'')) \<and>
   \<not> set (placeholders ''/user/:id'') \<subseteq> keys [(''item'', ''3'')] \<and>
   fst (Path 0 \<lparr>name = ''user'', route = ''/user/:id'', parameters = 0\<rparr>
          (heap_of [ [(''item'', ''3'')] ]))
     = ([], Some (RouteParameterNotSet ''id''))"
  using C3_Path_unknown_parameter
    [of "\<lparr>name = ''user'', route = ''/user/:id'', parameters = 0\<rparr>"
        "heap_of [ [(''id'', ''3''), (''item'', ''3'')] ]" 0]
    C3_Path_unknown_parameter
    [of "\<lparr>name = ''user'', route = ''/user/:id'', parameters = 0\<rparr>"
        "heap_of [ [(''item'', ''3'')] ]" 0]
  by (simp add: eval_defs)

subsection \<open>C4: a name that is not registered\<close>

lemma map_index_absent: "k \<notin> keys m \<Longrightarrow> map_index m k = []"
  by (simp add: map_index_def keys_def map_of_eq_None_iff [THEN iffD2])

lemma Reverse_fields:
  "name (fst (Reverse r nm h)) = nm"
  "route (fst (Reverse r nm h)) = map_index (cells h (names r)) nm"
  "parameters (fst (Reverse r nm h)) = next_free h"
  "cells (snd (Reverse r nm h)) (next_free h) = []"
  by (simp_all add: Reverse_def make_map_def Let_def)

text \<open>
  C4. For every name that is not in the registry, \<open>Reverse\<close> returns a handle (it is a
  total function: the lookup cannot fail) that carries the requested name and the empty
  template, and \<open>Path\<close> on that handle, on the heap \<open>Reverse\<close> leaves or on any later
  one, fails with \<open>NoRouteDefinedError\<close> carrying exactly that name, returns the empty
  string as the path and changes nothing.
\<close>

theorem C4_Path_no_route_defined:
  assumes "nm \<notin> keys (cells h (names r))"
  shows "name (fst (Reverse r nm h)) = nm \<and> route (fst (Reverse r nm h)) = [] \<and>
         Path rnd (fst (Reverse r nm h)) (snd (Reverse r nm h)) =
           (([], Some (NoRouteDefinedError nm)), snd (Reverse r nm h)) \<and>
         Path rnd (fst (Reverse r nm h)) h' = (([], Some (NoRouteDefinedError nm)), h')"
  using assms by (simp add: Reverse_fields map_index_absent Path_def)

theorem C4_witness:
  "''unknown'' \<notin> keys [(''root'', ''/''), (''user'', ''/user/:id'')] \<and>
   fst (Path 0 (fst (Reverse \<lparr>names = 0\<rparr> ''unknown''
                       (heap_of [ [(''root'', ''/''), (''user'', ''/user/:id'')] ])))
          (snd (Reverse \<lparr>names = 0\<rparr> ''unknown''
                       (heap_of [ [(''root'', ''/''), (''user'', ''/user/:id'')] ]))))
     = ([], Some (NoRouteDefinedError ''unknown''))"
  using C4_Path_no_route_defined
    [of "''unknown''" "heap_of [ [(''root'', ''/''), (''user'', ''/user/:id'')] ]"
        "\<lparr>names = 0\<rparr>" 0]
  by (simp add: keys_def heap_of_def)

subsection \<open>C5: a template without placeholders\<close>

lemma map_index_present: "map_of m k = Some v \<Longrightarrow> map_index m k = v"
  by (simp add: map_index_def)

lemma substitute_plain:
  assumes "placeholders t = []"
  shows "substitute ps t = t"
proof -
  from assms have "\<forall>part \<in> set (Split t CHR ''/''). \<not> is_param part"
    by (simp add: placeholders_def param_names_def filter_empty_conv)
  then have "map (subst ps) (Split t CHR ''/'') = Split t CHR ''/''"
    by (simp add: subst_def map_idI)
  then show ?thesis
    using Join_Split [of t "CHR ''/''"] by (simp add: substitute_def)
qed

text \<open>
  C5, as stated, says that a registered template without placeholder segments is
  returned unchanged. Registering \<open>submit\<close> at \<open>/submit\<close> in the group \<open>/v1\<close> nested in
  the group \<open>/api\<close> stores the template \<open>/api//v1/submit\<close>, which has no placeholder
  segment; \<open>Path\<close> skips its empty segment and returns \<open>/api/v1/submit\<close>.
\<close>

theorem C5_counterexample:
  "map_of (cells (Group_Get (Group_NamedGroup (Router_NamedGroup \<lparr>names = 0\<rparr> ''/api'') ''/v1'')
                    ''submit'' ''/submit'' (heap_of [ [] ])) 0) ''submit''
     = Some ''/api//v1/submit'' \<and>
   placeholders ''/api//v1/submit'' = [] \<and>
   fst (Path 0
     (fst (Reverse \<lparr>names = 0\<rparr> ''submit''
        (Group_Get (Group_NamedGroup (Router_NamedGroup \<lparr>names = 0\<rparr> ''/api'') ''/v1'')
           ''submit'' ''/submit'' (heap_of [ [] ]))))
     (snd (Reverse \<lparr>names = 0\<rparr> ''submit''
        (Group_Get (Group_NamedGroup (Router_NamedGroup \<lparr>names = 0\<rparr> ''/api'') ''/v1'')
           ''submit'' ''/submit'' (heap_of [ [] ])))))
     = (''/api/v1/submit'', None) \<and>
   ''/api/v1/submit'' \<noteq> ''/api//v1/submit''"
  by (simp add: eval_defs Group_Get_def)

text \<open>
  C5, amended. For every registered pair of a name and a template that begins with a
  slash, has no doubled slash and has no segment starting with \<open>:\<close> or \<open>*\<close>, \<open>Path\<close> on
  the handle that \<open>Reverse\<close> returns for the name, with no bindings added, returns
  exactly the template.
\<close>

theorem C5_Path_plain_template:
  assumes "map_of (cells h (names r)) nm = Some t"
    and "slash_normal t"
    and "placeholders t = []"
  shows "fst (Path rnd (fst (Reverse r nm h)) (snd (Reverse r nm h))) = (t, None)"
proof -
  let ?nr = "fst (Reverse r nm h)" and ?h = "snd (Reverse r nm h)"
  from assms(1) have rt: "route ?nr = t"
    by (simp add: Reverse_fields map_index_present)
  have ps: "cells ?h (parameters ?nr) = []"
    by (simp add: Reverse_fields)
  from assms(2) have ne: "t \<noteq> []" by (auto simp: slash_normal_def)
  have "Path rnd ?nr ?h =
          ((rendered (cells ?h (parameters ?nr)) (route ?nr), None),
           ?h\<lparr>cells := (cells ?h)(parameters ?nr := [])\<rparr>)"
    by (rule Path_success) (simp_all add: rt ps ne assms(3) keys_def)
  then show ?thesis
    by (simp add: rt ps rendered_substitute [OF assms(2)] substitute_plain [OF assms(3)])
qed

theorem C5_witness:
  "map_of [(''root'', ''/''), (''about'', ''/about/us'')] ''about'' = Some ''/about/us'' \<and>
   slash_normal ''/about/us'' \<and> placeholders ''/about/us'' = [] \<and>
   fst (Path 0 (fst (Reverse \<lparr>names = 0\<rparr> ''about''
                       (heap_of [ [(''root'', ''/''), (''about'', ''/about/us'')] ])))
          (snd (Reverse \<lparr>names = 0\<rparr> ''about''
                       (heap_of [ [(''root'', ''/''), (''about'', ''/about/us'')] ]))))
     = (''/about/us'', None)"
  using C5_Path_plain_template
    [of "heap_of [ [(''root'', ''/''), (''about'', ''/about/us'')] ]" "\<lparr>names = 0\<rparr>"
        "''about''" "''/about/us''" 0]
  by (simp add: heap_of_def slash_normal_def placeholders_def param_names_def is_param_def)

text \<open>The root template.\<close>

lemma Path_root_example:
  "fst (Path 0 \<lparr>name = ''root'', route = ''/'', parameters = 0\<rparr> (heap_of [ [] ])) = (''/'', None)"
  by (simp add: eval_defs)

subsection \<open>C6: the slashes of the output\<close>

lemma has_dslash_Cons:
  "has_dslash (x # b) = ((b \<noteq> [] \<and> x = CHR ''/'' \<and> hd b = CHR ''/'') \<or> has_dslash b)"
  by (cases b) auto

lemma has_dslash_append:
  "has_dslash (a @ b) =
     (has_dslash a \<or> has_dslash b \<or>
      (a \<noteq> [] \<and> b \<noteq> [] \<and> last a = CHR ''/'' \<and> hd b = CHR ''/''))"
proof (induction a)
  case Nil
  then show ?case by simp
next
  case (Cons x a)
  show ?case
  proof (cases a)
    case Nil
    then show ?thesis by (auto simp: has_dslash_Cons)
  next
    case (Cons y a')
    with Cons.IH show ?thesis
      by (auto simp: has_dslash_Cons simp del: has_dslash.simps)
  qed
qed

lemma no_slash_no_dslash: "CHR ''/'' \<notin> set v \<Longrightarrow> \<not> has_dslash v"
  by (induction v rule: has_dslash.induct) auto

lemma literal_clean: "v \<noteq> [] \<Longrightarrow> CHR ''/'' \<notin> set v \<Longrightarrow> clean v"
  by (metis clean_def hd_in_set last_in_set no_slash_no_dslash)

lemma map_index_value: "k \<in> keys ps \<Longrightarrow> map_index ps k \<in> snd ` set ps"
proof -
  assume "k \<in> keys ps"
  then obtain v where v: "map_of ps k = Some v"
    by (cases "map_of ps k") (auto simp: keys_def map_of_eq_None_iff)
  then have "(k, v) \<in> set ps" by (rule map_of_SomeD)
  with v show ?thesis by (force simp: map_index_def)
qed

text \<open>What the joiner builds has no doubled slash and does not begin with a slash.\<close>

lemma render_tidy:
  "\<forall>part \<in> set xs. part \<noteq> [] \<longrightarrow> clean (subst ps part) \<Longrightarrow>
   \<not> has_dslash (render ps i l xs) \<and> (render ps i l xs \<noteq> [] \<longrightarrow> hd (render ps i l xs) \<noteq> CHR ''/'')"
proof (induction xs arbitrary: i)
  case Nil
  then show ?case by simp
next
  case (Cons part rest)
  let ?r = "render ps (Suc i) l rest"
  from Cons have r: "\<not> has_dslash ?r" "?r \<noteq> [] \<longrightarrow> hd ?r \<noteq> CHR ''/''"
    by simp_all
  show ?case
  proof (cases "part = []")
    case True
    with r show ?thesis by simp
  next
    case False
    with Cons.prems have "clean (subst ps part)" by simp
    then have c: "subst ps part \<noteq> []" "hd (subst ps part) \<noteq> CHR ''/''"
      "last (subst ps part) \<noteq> CHR ''/''" "\<not> has_dslash (subst ps part)"
      by (simp_all add: clean_def)
    with r False show ?thesis
      by (auto simp: has_dslash_append hd_append)
  qed
qed

text \<open>
  C6, as stated, has every successful output begin with a single slash. Bound values
  are appended as they are: on the catch-all template \<open>/*filepath\<close> with
  \<open>filepath=/css/app.css\<close> the output is \<open>//css/app.css\<close>.
\<close>

theorem C6_counterexample:
  "fst (Path 0 \<lparr>name = ''static'', route = ''/*filepath'', parameters = 0\<rparr>
          (heap_of [ [(''filepath'', ''/css/app.css'')] ])) = (''//css/app.css'', None) \<and>
   take 2 ''//css/app.css'' = ''//''"
  by (simp add: eval_defs)

text \<open>
  C6, amended. Every successful output of \<open>Path\<close> is one slash followed by what the
  joiner builds from the segments: nothing for an empty segment (so the leading or a
  doubled slash of the template adds nothing), and for any other segment the literal or
  the bound value, followed by a slash exactly when the segment is not the final one.
  So the output begins with a slash, and a slash of the template never gives a doubled
  slash: when the bound values are non-empty, have no slash at either end and no doubled
  slash inside, the output begins with a single slash and has no doubled slash anywhere.
\<close>

theorem C6_Path_slashes:
  assumes "fst (Path rnd nr h) = (out, None)"
  shows "out = ''/'' @ render (cells h (parameters nr)) 0
                         (length (Split (route nr) CHR ''/'') - 1) (Split (route nr) CHR ''/'') \<and>
         take 1 out = ''/'' \<and>
         ((\<forall>v \<in> snd ` set (cells h (parameters nr)). clean v) \<longrightarrow>
            \<not> has_dslash out \<and> take 2 out \<noteq> ''//'')"
proof -
  let ?ps = "cells h (parameters nr)" and ?ns = "placeholders (route nr)"
  let ?parts = "Split (route nr) CHR ''/''"
  from assms have ne: "route nr \<noteq> []"
    by (auto simp: Path_def)
  have ok: "set ?ns \<subseteq> keys ?ps \<and> distinct ?ns"
  proof (rule ccontr)
    assume "\<not> (set ?ns \<subseteq> keys ?ps \<and> distinct ?ns)"
    then have "\<exists>q. fst (Path rnd nr h) = ([], Some (RouteParameterNotSet q))"
      by (intro Path_unmet) blast
    with assms show False by simp
  qed
  have all: "keys ?ps \<subseteq> set ?ns"
  proof (rule ccontr)
    assume "\<not> keys ?ps \<subseteq> set ?ns"
    with ne ok have "fst (Path rnd nr h) =
        ([], Some (UnknownRouteParameter (range_first rnd (consume ?ns ?ps))))"
      by (simp add: Path_unknown)
    with assms show False by simp
  qed
  from ne ok all have "fst (Path rnd nr h) = (rendered ?ps (route nr), None)"
    by (simp add: Path_success)
  with assms have out: "out = ''/'' @ render ?ps 0 (length ?parts - 1) ?parts"
    by (simp add: rendered_def)
  have tidy: "\<not> has_dslash out \<and> take 2 out \<noteq> ''//''"
    if vs: "\<forall>v \<in> snd ` set ?ps. clean v"
  proof -
    have "\<forall>part \<in> set ?parts. part \<noteq> [] \<longrightarrow> clean (subst ?ps part)"
    proof (intro ballI impI)
      fix part assume part: "part \<in> set ?parts" "part \<noteq> []"
      show "clean (subst ?ps part)"
      proof (cases "is_param part")
        case True
        with part(1) have "drop 1 part \<in> set ?ns"
          by (auto simp: placeholders_def param_names_def)
        with ok have "drop 1 part \<in> keys ?ps" by blast
        then have "map_index ?ps (drop 1 part) \<in> snd ` set ?ps"
          by (rule map_index_value)
        with vs have "clean (map_index ?ps (drop 1 part))" by blast
        with True show ?thesis by (simp add: subst_def)
      next
        case False
        from part(1) have "CHR ''/'' \<notin> set part" by (rule Split_no_sep)
        with part(2) False show ?thesis by (simp add: subst_def literal_clean)
      qed
    qed
    from render_tidy [OF this, of 0 "length ?parts - 1"]
    have r: "\<not> has_dslash (render ?ps 0 (length ?parts - 1) ?parts)"
      "render ?ps 0 (length ?parts - 1) ?parts \<noteq> [] \<longrightarrow>
         hd (render ?ps 0 (length ?parts - 1) ?parts) \<noteq> CHR ''/''"
      by simp_all
    then have "\<not> has_dslash out"
      by (auto simp: out has_dslash_Cons)
    moreover from r(2) have "take 2 out \<noteq> ''//''"
      by (cases "render ?ps 0 (length ?parts - 1) ?parts") (auto simp: out)
    ultimately show ?thesis by simp
  qed
  from out tidy show ?thesis by simp
qed

theorem C6_witness:
  "fst (Path 0 \<lparr>name = ''item'', route = ''//item///*splat/'', parameters = 0\<rparr>
          (heap_of [ [(''splat'', ''records/7'')] ])) = (''/item/records/7/'', None) \<and>
   ''/item/records/7/'' =
     ''/'' @ render [(''splat'', ''records/7'')] 0
               (length (Split ''//item///*splat/'' CHR ''/'') - 1)
               (Split ''//item///*splat/'' CHR ''/'') \<and>
   clean ''records/7'' \<and> \<not> has_dslash ''/item/records/7/''"
  using C6_Path_slashes
    [of 0 "\<lparr>name = ''item'', route = ''//item///*splat/'', parameters = 0\<rparr>"
        "heap_of [ [(''splat'', ''records/7'')] ]" "''/item/records/7/''"]
  by (simp add: eval_defs)

subsection \<open>C7: templates registered through nested groups\<close>

lemma Join_prefixes: "Join (p # qs) sep = p @ concat (map (\<lambda>q. sep @ q) qs)"
  by (induction qs arbitrary: p) simp_all

lemma foldl_Group_NamedGroup:
  "basePath (foldl Group_NamedGroup g qs) = basePath g @ concat (map (\<lambda>q. ''/'' @ q) qs) \<and>
   namedRouter (foldl Group_NamedGroup g qs) = namedRouter g"
  by (induction qs arbitrary: g) (simp_all add: Group_NamedGroup_def)

lemma nested_group_fields:
  "basePath (nested_group r p qs) = Join (p # qs) ''/''"
  "namedRouter (nested_group r p qs) = r"
  using foldl_Group_NamedGroup [of "Router_NamedGroup r p" qs]
  by (simp_all add: nested_group_def Join_prefixes Router_NamedGroup_def)

lemma map_index_store: "map_index (map_store m k v) k = v"
  by (simp add: map_index_def map_store_def update_conv')

lemma Group_register_stores:
  "map_index (cells (Group_register (nested_group r p qs) nm rel h) (names r)) nm
     = Join (p # qs) ''/'' @ rel"
  by (simp add: Group_register_def nested_group_fields map_index_store)

text \<open>
  C7. A group reached from the router through the prefix \<open>p\<close> and then the prefixes
  \<open>qs\<close> has as its base path the prefixes joined with \<open>/\<close> and shares the router's
  registry. Each of its seven registration methods stores, under the name, in that
  registry, the base path followed by the relative path, and \<open>Reverse\<close> on the router
  then resolves the name to that template. The prefixes \<open>/api\<close> then \<open>v1\<close> with the
  relative path \<open>/submit\<close> store \<open>/api/v1/submit\<close>.
\<close>

theorem C7_nested_group_template:
  "basePath (nested_group r p qs) = Join (p # qs) ''/'' \<and>
   namedRouter (nested_group r p qs) = r \<and>
   map_index (cells (Group_Post (nested_group r p qs) nm rel h) (names r)) nm
     = Join (p # qs) ''/'' @ rel \<and>
   map_index (cells (Group_Get (nested_group r p qs) nm rel h) (names r)) nm
     = Join (p # qs) ''/'' @ rel \<and>
   map_index (cells (Group_Delete (nested_group r p qs) nm rel h) (names r)) nm
     = Join (p # qs) ''/'' @ rel \<and>
   map_index (cells (Group_Patch (nested_group r p qs) nm rel h) (names r)) nm
     = Join (p # qs) ''/'' @ rel \<and>
   map_index (cells (Group_Put (nested_group r p qs) nm rel h) (names r)) nm
     = Join (p # qs) ''/'' @ rel \<and>
   map_index (cells (Group_Options (nested_group r p qs) nm rel h) (names r)) nm
     = Join (p # qs) ''/'' @ rel \<and>
   map_index (cells (Group_Head (nested_group r p qs) nm rel h) (names r)) nm
     = Join (p # qs) ''/'' @ rel \<and>
   route (fst (Reverse r nm (Group_Get (nested_group r p qs) nm rel h)))
     = Join (p # qs) ''/'' @ rel \<and>
   route (fst (Reverse r ''v1-submit''
            (Group_Post (Group_NamedGroup (Router_NamedGroup r ''/api'') ''v1'')
               ''v1-submit'' ''/submit'' h)))
     = ''/api/v1/submit''"
proof -
  have ex: "Group_NamedGroup (Router_NamedGroup r ''/api'') ''v1'' = nested_group r ''/api'' [''v1'']"
    by (simp add: nested_group_def)
  show ?thesis
    unfolding ex Group_Post_def Group_Get_def Group_Delete_def Group_Patch_def Group_Put_def
      Group_Options_def Group_Head_def
    by (simp add: nested_group_fields Group_register_stores Reverse_fields)
qed

subsection \<open>C8: calling Path twice\<close>

text \<open>
  C8, as stated, has two calls of \<open>Path\<close> on a handle, with no \<open>With\<close> in between,
  return the same pair. On \<open>/user/:id\<close> with \<open>id=3\<close> the first call returns \<open>/user/3\<close>
  and deletes the binding from the handle's table; the second call fails with
  \<open>RouteParameterNotSet id\<close>.
\<close>

theorem C8_counterexample:
  "fst (Path 0 \<lparr>name = ''user'', route = ''/user/:id'', parameters = 0\<rparr>
          (heap_of [ [(''id'', ''3'')] ])) = (''/user/3'', None) \<and>
   fst (Path 0 \<lparr>name = ''user'', route = ''/user/:id'', parameters = 0\<rparr>
          (snd (Path 0 \<lparr>name = ''user'', route = ''/user/:id'', parameters = 0\<rparr>
                  (heap_of [ [(''id'', ''3'')] ]))))
     = ([], Some (RouteParameterNotSet ''id''))"
  by (simp add: eval_defs)

text \<open>\<open>Path\<close> substitutes nothing when no placeholder name comes before the first unbound one.\<close>

lemma bound_prefix_Nil:
  "bound_prefix ps ns = [] \<longleftrightarrow> ns = [] \<or> hd ns \<notin> keys ps"
  by (cases ns) (simp_all add: bound_prefix_def)

lemma Path_plain:
  assumes "placeholders (route nr) = []"
  shows "Path r nr h =
           (if route nr = [] then (([], Some (NoRouteDefinedError (name nr))), h)
            else if cells h (parameters nr) = []
            then ((rendered (cells h (parameters nr)) (route nr), None), h)
            else (([], Some (UnknownRouteParameter (range_first r (cells h (parameters nr))))),
                  h))"
proof (cases "route nr = []")
  case True
  then show ?thesis by (simp add: Path_def)
next
  case False
  let ?ps = "cells h (parameters nr)"
  have same: "h\<lparr>cells := (cells h)(parameters nr := ?ps)\<rparr> = h"
    by simp
  show ?thesis
  proof (cases "?ps = []")
    case True
    with False assms have "Path r nr h =
        ((rendered ?ps (route nr), None), h\<lparr>cells := (cells h)(parameters nr := [])\<rparr>)"
      by (intro Path_success) (simp_all add: keys_def)
    with True same False show ?thesis by simp
  next
    case ne: False
    then have "keys ?ps \<noteq> {}" by (simp add: keys_empty_iff)
    with False assms have "Path r nr h =
        (([], Some (UnknownRouteParameter (range_first r (consume [] ?ps)))),
         h\<lparr>cells := (cells h)(parameters nr := consume [] ?ps)\<rparr>)"
      using Path_unknown [of nr h r] by simp
    with ne False show ?thesis by simp
  qed
qed

lemma Path_first_unbound:
  assumes "placeholders (route nr) \<noteq> []"
    and "hd (placeholders (route nr)) \<notin> keys (cells h (parameters nr))"
  shows "Path r nr h = (([], Some (RouteParameterNotSet (hd (placeholders (route nr))))), h)"
proof -
  let ?ns = "placeholders (route nr)"
  from assms(1) have ns: "?ns = [] @ hd ?ns # tl ?ns" by simp
  have "Path r nr h =
      (([], Some (RouteParameterNotSet (hd ?ns))),
       h\<lparr>cells := (cells h)(parameters nr := consume [] (cells h (parameters nr)))\<rparr>)"
    by (rule Path_not_set [OF ns]) (simp_all add: assms(2))
  then show ?thesis by simp
qed

text \<open>
  C8, amended. For every handle on which \<open>Path\<close> substitutes nothing, that is, whose
  template has no placeholder segment (the handle of an unregistered name among them)
  or whose first placeholder segment is unbound, \<open>Path\<close> leaves the heap as it is, and
  a second call returns what the first returned, with one exception: on a template
  without placeholder segments with two or more bindings left over, both calls fail
  with \<open>UnknownRouteParameter\<close>, each carrying one of the keys, not necessarily the
  same. On a template with placeholder segments a successful call uses up the bindings,
  and the second call fails with \<open>RouteParameterNotSet\<close> carrying the name of the first
  placeholder.
\<close>

theorem C8_Path_twice:
  "(bound_prefix (cells h (parameters nr)) (placeholders (route nr)) = [] \<longrightarrow>
      snd (Path rnd nr h) = h \<and>
      (fst (Path rnd' nr (snd (Path rnd nr h))) = fst (Path rnd nr h) \<or>
       placeholders (route nr) = [] \<and> 1 < map_len (cells h (parameters nr)) \<and>
       (\<exists>k k'. k \<in> keys (cells h (parameters nr)) \<and> k' \<in> keys (cells h (parameters nr)) \<and>
          fst (Path rnd nr h) = ([], Some (UnknownRouteParameter k)) \<and>
          fst (Path rnd' nr (snd (Path rnd nr h))) = ([], Some (UnknownRouteParameter k'))))) \<and>
   (placeholders (route nr) \<noteq> [] \<and> distinct (placeholders (route nr)) \<and>
    keys (cells h (parameters nr)) = set (placeholders (route nr)) \<longrightarrow>
      fst (Path rnd nr h) = (rendered (cells h (parameters nr)) (route nr), None) \<and>
      fst (Path rnd' nr (snd (Path rnd nr h)))
        = ([], Some (RouteParameterNotSet (hd (placeholders (route nr))))))"
proof (intro conjI impI)
  let ?ps = "cells h (parameters nr)" and ?ns = "placeholders (route nr)"
  assume "bound_prefix ?ps ?ns = []"
  then have nosub: "?ns = [] \<or> hd ?ns \<notin> keys ?ps"
    by (simp add: bound_prefix_Nil)
  show h: "snd (Path rnd nr h) = h"
  proof (cases "?ns = []")
    case True
    then show ?thesis by (simp add: Path_plain)
  next
    case False
    with nosub have "hd ?ns \<notin> keys ?ps" by simp
    with False show ?thesis by (simp add: Path_first_unbound)
  qed
  show "fst (Path rnd' nr (snd (Path rnd nr h))) = fst (Path rnd nr h) \<or>
       ?ns = [] \<and> 1 < map_len ?ps \<and>
       (\<exists>k k'. k \<in> keys ?ps \<and> k' \<in> keys ?ps \<and>
          fst (Path rnd nr h) = ([], Some (UnknownRouteParameter k)) \<and>
          fst (Path rnd' nr (snd (Path rnd nr h))) = ([], Some (UnknownRouteParameter k')))"
  proof (cases "?ns = []")
    case False
    with nosub have "hd ?ns \<notin> keys ?ps" by simp
    with False have "\<And>r. Path r nr h = (([], Some (RouteParameterNotSet (hd ?ns))), h)"
      by (simp add: Path_first_unbound)
    then show ?thesis by simp
  next
    case np: True
    show ?thesis
    proof (cases "route nr = [] \<or> ?ps = []")
      case True
      with np show ?thesis by (auto simp: h Path_plain)
    next
      case False
      with np have P: "\<And>r. fst (Path r nr h) =
          ([], Some (UnknownRouteParameter (range_first r ?ps)))"
        by (simp add: Path_plain)
      from False have ne: "?ps \<noteq> []" by simp
      show ?thesis
      proof (cases "1 < map_len ?ps")
        case True
        with P np range_first_in [OF ne] show ?thesis
          by (simp add: h)
      next
        case False
        with ne have "length ?ps = 1" by (cases ?ps) (simp_all add: map_len_def)
        then have "\<And>r. range_first r ?ps = fst (?ps ! 0)"
          by (simp add: range_first_def)
        with P show ?thesis by (simp add: h)
      qed
    qed
  qed
next
  let ?ps = "cells h (parameters nr)" and ?ns = "placeholders (route nr)"
  assume a: "?ns \<noteq> [] \<and> distinct ?ns \<and> keys ?ps = set ?ns"
  then have ne: "route nr \<noteq> []" by (intro placeholders_route_nonempty) simp
  with a have first: "Path rnd nr h =
      ((rendered ?ps (route nr), None), h\<lparr>cells := (cells h)(parameters nr := [])\<rparr>)"
    by (intro Path_success) simp_all
  then show "fst (Path rnd nr h) = (rendered ?ps (route nr), None)" by simp
  let ?h = "h\<lparr>cells := (cells h)(parameters nr := [])\<rparr>"
  from a have "hd ?ns \<notin> keys (cells ?h (parameters nr))"
    by (simp add: keys_def)
  with a have "Path rnd' nr ?h = (([], Some (RouteParameterNotSet (hd ?ns))), ?h)"
    by (intro Path_first_unbound) simp_all
  with first show "fst (Path rnd' nr (snd (Path rnd nr h)))
        = ([], Some (RouteParameterNotSet (hd ?ns)))"
    by simp
qed

text \<open>
  Three instances: a template without placeholders, the template \<open>/user/:id\<close> with no
  binding (the test case \<open>Unknown parameter\<close>), and \<open>/user/:id\<close> with \<open>id=3\<close>.
\<close>

theorem C8_witness:
  "bound_prefix [] (placeholders (route \<lparr>name = ''about'', route = ''/about/us'', parameters = 0\<rparr>))
     = [] \<and>
   fst (Path 0 \<lparr>name = ''about'', route = ''/about/us'', parameters = 0\<rparr> (heap_of [ [] ]))
     = (''/about/us'', None) \<and>
   fst (Path 1 \<lparr>name = ''about'', route = ''/about/us'', parameters = 0\<rparr>
          (snd (Path 0 \<lparr>name = ''about'', route = ''/about/us'', parameters = 0\<rparr> (heap_of [ [] ]))))
     = (''/about/us'', None) \<and>
   bound_prefix [(''item'', ''3'')] (placeholders ''/user/:id'') = [] \<and>
   placeholders ''/user/:id'' \<noteq> [] \<and>
   fst (Path 0 \<lparr>name = ''user'', route = ''/user/:id'', parameters = 0\<rparr>
          (heap_of [ [(''item'', ''3'')] ]))
     = ([], Some (RouteParameterNotSet ''id'')) \<and>
   cells (snd (Path 0 \<lparr>name = ''user'', route = ''/user/:id'', parameters = 0\<rparr>
                 (heap_of [ [(''item'', ''3'')] ]))) 0
     = [(''item'', ''3'')] \<and>
   fst (Path 1 \<lparr>name = ''user'', route = ''/user/:id'', parameters = 0\<rparr>
          (snd (Path 0 \<lparr>name = ''user'', route = ''/user/:id'', parameters = 0\<rparr>
                  (heap_of [ [(''item'', ''3'')] ]))))
     = ([], Some (RouteParameterNotSet ''id'')) \<and>
   distinct (placeholders ''/user/:id'') \<and>
   keys [(''id'', ''3'')] = set (placeholders ''/user/:id'') \<and>
   fst (Path 1 \<lparr>name = ''user'', route = ''/user/:id'', parameters = 0\<rparr>
          (snd (Path 0 \<lparr>name = ''user'', route = ''/user/:id'', parameters = 0\<rparr>
                  (heap_of [ [(''id'', ''3'')] ]))))
     = ([], Some (RouteParameterNotSet ''id''))"
  using C8_Path_twice
    [of "heap_of [ [] ]" "\<lparr>name = ''about'', route = ''/about/us'', parameters = 0\<rparr>" 0 1]
    C8_Path_twice
    [of "heap_of [ [(''item'', ''3'')] ]"
        "\<lparr>name = ''user'', route = ''/user/:id'', parameters = 0\<rparr>" 0 1]
    C8_Path_twice
    [of "heap_of [ [(''id'', ''3'')] ]"
        "\<lparr>name = ''user'', route = ''/user/:id'', parameters = 0\<rparr>" 0 1]
  by (simp add: eval_defs)

subsection \<open>C9: With and the shared table\<close>

text \<open>
  C9, as stated, gives \<open>With\<close> value semantics: a \<open>With\<close> on the returned handle would
  leave the bindings seen through the original handle as they were. The returned handle
  refers to the table of the original: after \<open>With id 3\<close> on a fresh handle and
  \<open>With item book\<close> on the handle it returned, the original handle sees \<open>item\<close> too.
\<close>

theorem C9_counterexample:
  "map_of (cells (snd (With \<lparr>name = ''user'', route = ''/user/:id'', parameters = 0\<rparr>
                         ''id'' ''3'' (heap_of [ [] ])))
             (parameters \<lparr>name = ''user'', route = ''/user/:id'', parameters = 0\<rparr>)) ''item''
     = None \<and>
   map_of (cells (snd (With (fst (With \<lparr>name = ''user'', route = ''/user/:id'', parameters = 0\<rparr>
                                    ''id'' ''3'' (heap_of [ [] ])))
                         ''item'' ''book''
                         (snd (With \<lparr>name = ''user'', route = ''/user/:id'', parameters = 0\<rparr>
                                    ''id'' ''3'' (heap_of [ [] ])))))
             (parameters \<lparr>name = ''user'', route = ''/user/:id'', parameters = 0\<rparr>)) ''item''
     = Some ''book''"
  by (simp add: eval_defs)

text \<open>
  C9, amended. \<open>With key value\<close> stores the pair in the table that the handle refers
  to and returns the handle as it is, referring to that same table: the bindings seen
  through the original handle, the returned one and every copy of either are the old
  ones with the pair added, and no other table changes. For a repeated key the last
  write wins.
\<close>

theorem C9_With_shared_table:
  "fst (With nr k v h) = nr \<and>
   map_of (cells (snd (With nr k v h)) (parameters nr))
     = (map_of (cells h (parameters nr)))(k \<mapsto> v) \<and>
   (a \<noteq> parameters nr \<longrightarrow> cells (snd (With nr k v h)) a = cells h a) \<and>
   map_of (cells (snd (With (fst (With nr k v h)) k v' (snd (With nr k v h))))
             (parameters nr)) k = Some v'"
  by (simp add: With_def map_store_def update_conv')

theorem C9_witness:
  "fst (With \<lparr>name = ''user'', route = ''/user/:id'', parameters = 0\<rparr> ''id'' ''3''
          (heap_of [ [], [(''user'', ''/user/:id'')] ]))
     = \<lparr>name = ''user'', route = ''/user/:id'', parameters = 0\<rparr> \<and>
   map_of (cells (snd (With \<lparr>name = ''user'', route = ''/user/:id'', parameters = 0\<rparr>
                         ''id'' ''3'' (heap_of [ [], [(''user'', ''/user/:id'')] ]))) 0) ''id''
     = Some ''3'' \<and>
   (1::nat) \<noteq> parameters \<lparr>name = ''user'', route = ''/user/:id'', parameters = 0\<rparr> \<and>
   cells (snd (With \<lparr>name = ''user'', route = ''/user/:id'', parameters = 0\<rparr>
                 ''id'' ''3'' (heap_of [ [], [(''user'', ''/user/:id'')] ]))) 1
     = [(''user'', ''/user/:id'')] \<and>
   map_of (cells (snd (With (fst (With \<lparr>name = ''user'', route = ''/user/:id'', parameters = 0\<rparr>
                                    ''id'' ''3'' (heap_of [ [], [(''user'', ''/user/:id'')] ])))
                         ''id'' ''4''
                         (snd (With \<lparr>name = ''user'', route = ''/user/:id'', parameters = 0\<rparr>
                                    ''id'' ''3'' (heap_of [ [], [(''user'', ''/user/:id'')] ])))))
             0) ''id''
     = Some ''4''"
  using C9_With_shared_table
    [of "\<lparr>name = ''user'', route = ''/user/:id'', parameters = 0\<rparr>" "''id''" "''3''"
        "heap_of [ [], [(''user'', ''/user/:id'')] ]" 1 "''4''"]
  by (simp add: eval_defs)

subsection \<open>C10: a parameter name in two placeholder segments\<close>

text \<open>
  C10, as stated, has \<open>Path\<close> fail with \<open>RouteParameterNotSet\<close> carrying the repeated
  name, for every name that is in two placeholder segments and whatever else is bound.
  In \<open>/:a/:a/:b/:b\<close> with \<open>a=1\<close>, \<open>b=2\<close> the name \<open>b\<close> is in two placeholder segments
  and is bound, but \<open>Path\<close> stops at the second \<open>:a\<close> and the error carries \<open>a\<close>. In
  \<open>/:x/a/:id/b/:id\<close> with \<open>id=3\<close> the error carries \<open>x\<close>.
\<close>

theorem C10_counterexample:
  "count_list (placeholders ''/:a/:a/:b/:b'') ''b'' = 2 \<and>
   ''b'' \<in> keys [(''a'', ''1''), (''b'', ''2'')] \<and>
   fst (Path 0 \<lparr>name = ''ab'', route = ''/:a/:a/:b/:b'', parameters = 0\<rparr>
          (heap_of [ [(''a'', ''1''), (''b'', ''2'')] ]))
     = ([], Some (RouteParameterNotSet ''a'')) \<and>
   count_list (placeholders ''/:x/a/:id/b/:id'') ''id'' = 2 \<and>
   ''id'' \<in> keys [(''id'', ''3'')] \<and>
   fst (Path 0 \<lparr>name = ''xid'', route = ''/:x/a/:id/b/:id'', parameters = 0\<rparr>
          (heap_of [ [(''id'', ''3'')] ]))
     = ([], Some (RouteParameterNotSet ''x''))"
  by (simp add: eval_defs)

text \<open>
  C10, amended. For every template in which some parameter name is in two or more
  placeholder segments, \<open>Path\<close> fails with \<open>RouteParameterNotSet\<close> whatever the
  bindings. The error carries the repeated name \<open>p\<close>, even though it is bound, when
  the placeholder segments before a later occurrence of \<open>p\<close> carry pairwise distinct,
  bound names: substituting the first occurrence deletes the binding before the later
  one is reached.
\<close>

theorem C10_Path_repeated_name:
  "(\<not> distinct (placeholders (route nr)) \<longrightarrow>
      (\<exists>q. fst (Path rnd nr h) = ([], Some (RouteParameterNotSet q)))) \<and>
   (placeholders (route nr) = pre @ p # post \<and> p \<in> set pre \<and> distinct pre \<and>
    set pre \<subseteq> keys (cells h (parameters nr)) \<longrightarrow>
      fst (Path rnd nr h) = ([], Some (RouteParameterNotSet p)))"
proof (intro conjI impI)
  assume "\<not> distinct (placeholders (route nr))"
  then show "\<exists>q. fst (Path rnd nr h) = ([], Some (RouteParameterNotSet q))"
    by (intro Path_unmet) simp
next
  assume a: "placeholders (route nr) = pre @ p # post \<and> p \<in> set pre \<and> distinct pre \<and>
    set pre \<subseteq> keys (cells h (parameters nr))"
  then have "Path rnd nr h =
      (([], Some (RouteParameterNotSet p)),
       h\<lparr>cells := (cells h)(parameters nr := consume pre (cells h (parameters nr)))\<rparr>)"
    by (intro Path_not_set [where post = post]) simp_all
  then show "fst (Path rnd nr h) = ([], Some (RouteParameterNotSet p))"
    by simp
qed

theorem C10_witness:
  "\<not> distinct (placeholders ''/a/:id/b/:id'') \<and>
   placeholders ''/a/:id/b/:id'' = [''id''] @ ''id'' # [] \<and>
   ''id'' \<in> set [''id''] \<and> distinct [''id''] \<and> set [''id''] \<subseteq> keys [(''id'', ''3'')] \<and>
   fst (Path 0 \<lparr>name = ''dup'', route = ''/a/:id/b/:id'', parameters = 0\<rparr>
          (heap_of [ [(''id'', ''3'')] ]))
     = ([], Some (RouteParameterNotSet ''id''))"
  using C10_Path_repeated_name
    [of "\<lparr>name = ''dup'', route = ''/a/:id/b/:id'', parameters = 0\<rparr>" 0
        "heap_of [ [(''id'', ''3'')] ]" "[''id'']" "''id''" "[]"]
  by (simp add: placeholders_def param_names_def is_param_def keys_def heap_of_def)

end
